theory Spec2Isabelle
  imports Complex_Main
begin

section \<open>Values that arrive in a request\<close>

text \<open>
  The handlers of \<^verbatim>\<open>server.js\<close> receive what \<^verbatim>\<open>express.json()\<close> parsed from the request
  body. A parsed number is a double: a finite one is a rational (both zeros are the
  rational 0), and a literal too large for a double parses to an infinity. NaN cannot be
  written in JSON.
\<close>

datatype number = Finite rat | PosInfinity | NegInfinity

datatype json =
    JNull
  | JBool bool
  | JNum number
  | JStr string
  | JArr "json list"
  | JObj "(string \<times> json) list"

text \<open>
  The members of an object are kept in the order of the text; where a name is repeated,
  \<^verbatim>\<open>JSON.parse\<close> keeps the last value. \<open>None\<close> is JavaScript's \<^verbatim>\<open>undefined\<close>.
  A string is the list of its code units, so that \<open>length\<close> is what \<^verbatim>\<open>.length\<close> counts.
\<close>

definition own_member :: "(string \<times> json) list \<Rightarrow> string \<Rightarrow> json option" where
  "own_member kvs name = map_of (rev kvs) name"

text \<open>The test \<^verbatim>\<open>!v\<close> is the negation of \<open>truthy\<close>.\<close>

fun truthy :: "json \<Rightarrow> bool" where
  "truthy JNull = False"
| "truthy (JBool b) = b"
| "truthy (JNum n) = (n \<noteq> Finite 0)"
| "truthy (JStr s) = (s \<noteq> [])"
| "truthy (JArr xs) = True"
| "truthy (JObj kvs) = True"

definition falsy :: "json option \<Rightarrow> bool" where
  "falsy v = (case v of None \<Rightarrow> True | Some a \<Rightarrow> \<not> truthy a)"

datatype js_error = TypeError

text \<open>
  The two property reads of the share page, \<^verbatim>\<open>.Pattern\<close> and \<^verbatim>\<open>.length\<close>. Reading a
  property of \<^verbatim>\<open>undefined\<close> or \<^verbatim>\<open>null\<close> throws; a boolean or a number has neither
  property; a string and an array have a \<^verbatim>\<open>length\<close> and no \<^verbatim>\<open>Pattern\<close>; an object has what
  its own members give it.
\<close>

fun prop_Pattern :: "json option \<Rightarrow> js_error + json option" where
  "prop_Pattern None = Inl TypeError"
| "prop_Pattern (Some JNull) = Inl TypeError"
| "prop_Pattern (Some (JObj kvs)) = Inr (own_member kvs ''Pattern'')"
| "prop_Pattern (Some v) = Inr None"

fun prop_length :: "json option \<Rightarrow> js_error + json option" where
  "prop_length None = Inl TypeError"
| "prop_length (Some JNull) = Inl TypeError"
| "prop_length (Some (JStr s)) = Inr (Some (JNum (Finite (of_nat (length s)))))"
| "prop_length (Some (JArr xs)) = Inr (Some (JNum (Finite (of_nat (length xs)))))"
| "prop_length (Some (JObj kvs)) = Inr (own_member kvs ''length'')"
| "prop_length (Some v) = Inr None"

text \<open>
  A template literal converts the value of each \<^verbatim>\<open>${...}\<close> to a string. A primitive
  always converts. An array joins the conversions of its elements. An object converts
  through \<^verbatim>\<open>Object.prototype.toString\<close> unless a member of its own named \<^verbatim>\<open>toString\<close>
  hides that method: a parsed value is never a function, so the conversion then throws.
\<close>

fun converts_to_string :: "json \<Rightarrow> bool" where
  "converts_to_string (JArr xs) = (\<forall>x \<in> set xs. converts_to_string x)"
| "converts_to_string (JObj kvs) = (own_member kvs ''toString'' = None)"
| "converts_to_string v = True"

fun template_slot :: "json option \<Rightarrow> js_error + json option" where
  "template_slot None = Inr None"
| "template_slot (Some v) = (if converts_to_string v then Inr (Some v) else Inl TypeError)"

section \<open>The session store\<close>

text \<open>
  A stored session. \<^verbatim>\<open>created\<close> and \<^verbatim>\<open>expires\<close> are written with \<^verbatim>\<open>toISOString()\<close> and
  read back with \<^verbatim>\<open>new Date(...).getTime()\<close>; both carry the millisecond count of the
  clock unchanged, so the fields hold that count.
\<close>

record session =
  ahap :: json
  mediaUrl :: "json option"
  created :: int
  expires :: int

text \<open>
  \<^verbatim>\<open>hapticSessions\<close> is a JavaScript \<^verbatim>\<open>Map\<close>: entries in insertion order, one per key.
  \<^verbatim>\<open>set\<close> replaces the value of a key at its place or appends a new entry.
\<close>

type_synonym store = "(string \<times> session) list"

fun map_set :: "string \<Rightarrow> session \<Rightarrow> store \<Rightarrow> store" where
  "map_set k v [] = [(k, v)]"
| "map_set k v ((k', v') # rest) =
     (if k' = k then (k, v) # rest else (k', v') # map_set k v rest)"

fun map_delete :: "string \<Rightarrow> store \<Rightarrow> store" where
  "map_delete k [] = []"
| "map_delete k ((k', v') # rest) =
     (if k' = k then map_delete k rest else (k', v') # map_delete k rest)"

definition map_get :: "store \<Rightarrow> string \<Rightarrow> session option" where
  "map_get s k = map_of s k"

definition map_size :: "store \<Rightarrow> nat" where
  "map_size s = length s"

definition one_entry_per_key :: "store \<Rightarrow> bool" where
  "one_entry_per_key s = distinct (map fst s)"

subsection \<open>cleanupExpiredSessions\<close>

text \<open>
  The loop visits the entries of the map and deletes the key of each entry whose expiry
  lies strictly before the clock reading taken at the start.
\<close>

fun cleanup_loop :: "(string \<times> session) list \<Rightarrow> int \<Rightarrow> store \<Rightarrow> store" where
  "cleanup_loop [] now s = s"
| "cleanup_loop ((key, val) # rest) now s =
     cleanup_loop rest now (if expires val < now then map_delete key s else s)"

definition cleanupExpiredSessions :: "int \<Rightarrow> store \<Rightarrow> store" where
  "cleanupExpiredSessions now s = cleanup_loop s now s"

section \<open>The handlers\<close>

text \<open>
  What the create handler reads of a request: the route parameter (Express hands it over
  as a string), the members of the parsed body, and the two values that go into the share
  address.
\<close>

record post_request =
  sessionId :: string
  body :: "(string \<times> json) list"
  protocol :: string
  host :: "string option"

text \<open>
  The create handler reads the clock three times: \<^verbatim>\<open>new Date()\<close> for \<^verbatim>\<open>created\<close>,
  \<^verbatim>\<open>Date.now()\<close> for \<^verbatim>\<open>expires\<close>, and \<^verbatim>\<open>Date.now()\<close> inside the cleanup it calls.
\<close>

record clock_reads =
  at_created :: int
  at_expires :: int
  at_cleanup :: int

record share_page =
  page_sessionId :: string
  page_events :: "json option"
  page_created :: int

datatype response =
    BadRequest
  | Stored string string string
  | NotFoundJson
  | SessionJson session
  | NotFoundText
  | SharePage share_page
  | HealthOk nat

definition header_text :: "string option \<Rightarrow> string" where
  "header_text h = (case h of None \<Rightarrow> ''undefined'' | Some x \<Rightarrow> x)"

text \<open>The object literal that the create handler stores.\<close>

definition new_session :: "clock_reads \<Rightarrow> post_request \<Rightarrow> json \<Rightarrow> session" where
  "new_session c req a =
     \<lparr>ahap = a,
      mediaUrl = own_member (body req) ''mediaUrl'',
      created = at_created c,
      expires = at_expires c + 24 * 60 * 60 * 1000\<rparr>"

text \<open>
  \<^verbatim>\<open>undefined\<close> is falsy, so a body without an \<^verbatim>\<open>ahap\<close> member takes the same branch
  as one whose \<^verbatim>\<open>ahap\<close> is \<^verbatim>\<open>null\<close>, \<^verbatim>\<open>false\<close>, \<^verbatim>\<open>0\<close> or the empty string.
\<close>

definition post_haptic :: "clock_reads \<Rightarrow> post_request \<Rightarrow> store \<Rightarrow> response \<times> store" where
  "post_haptic c req s =
     (case own_member (body req) ''ahap'' of
        None \<Rightarrow> (BadRequest, s)
      | Some a \<Rightarrow>
          if sessionId req = [] \<or> \<not> truthy a then (BadRequest, s)
          else
            let s1 = map_set (sessionId req) (new_session c req a) s;
                s2 = cleanupExpiredSessions (at_cleanup c) s1
            in (Stored (sessionId req)
                  (''haptic://load/'' @ sessionId req)
                  (protocol req @ ''://'' @ header_text (host req) @ ''/haptic/'' @ sessionId req),
                s2))"

definition get_haptic :: "string \<Rightarrow> store \<Rightarrow> response" where
  "get_haptic sid s =
     (case map_get s sid of
        None \<Rightarrow> NotFoundJson
      | Some session \<Rightarrow> SessionJson session)"

definition get_share_page :: "string \<Rightarrow> store \<Rightarrow> js_error + response" where
  "get_share_page sid s =
     (case map_get s sid of
        None \<Rightarrow> Inr NotFoundText
      | Some session \<Rightarrow>
          (case prop_Pattern (Some (ahap session)) of
             Inl e \<Rightarrow> Inl e
           | Inr pat \<Rightarrow>
               (case prop_length pat of
                  Inl e \<Rightarrow> Inl e
                | Inr len \<Rightarrow>
                    (case template_slot len of
                       Inl e \<Rightarrow> Inl e
                     | Inr shown \<Rightarrow>
                         Inr (SharePage \<lparr>page_sessionId = sid,
                                         page_events = shown,
                                         page_created = created session\<rparr>)))))"

definition get_health :: "store \<Rightarrow> response" where
  "get_health s = HealthOk (map_size s)"

subsection \<open>Runs of the server\<close>

text \<open>
  What can happen to the store: a request to one of the four routes, or the hourly timer
  calling the cleanup at some clock reading.
\<close>

datatype event =
    Post clock_reads post_request
  | Get string
  | Page string
  | Health
  | Timer int

fun step :: "event \<Rightarrow> store \<Rightarrow> store" where
  "step (Post c req) s = snd (post_haptic c req s)"
| "step (Get sid) s = s"
| "step (Page sid) s = s"
| "step Health s = s"
| "step (Timer now) s = cleanupExpiredSessions now s"

fun run :: "event list \<Rightarrow> store \<Rightarrow> store" where
  "run [] s = s"
| "run (e # es) s = run es (step e s)"

fun writes_key :: "string \<Rightarrow> event \<Rightarrow> bool" where
  "writes_key k (Post c req) = (sessionId req = k)"
| "writes_key k e = False"

text \<open>The \<^verbatim>\<open>Pattern\<close> member of a payload, when the payload is an object that has one.\<close>

fun pattern_of :: "json \<Rightarrow> json option" where
  "pattern_of (JObj kvs) = own_member kvs ''Pattern''"
| "pattern_of v = None"

fun no_write_to :: "string \<Rightarrow> event list \<Rightarrow> bool" where
  "no_write_to k [] = True"
| "no_write_to k (e # es) = (\<not> writes_key k e \<and> no_write_to k es)"

subsection \<open>A client and a clock for worked examples\<close>

definition three_events :: json where
  "three_events =
     JObj [(''Pattern'', JArr [JNum (Finite 1), JNum (Finite 2), JNum (Finite 3)])]"

definition upload :: "string \<Rightarrow> json \<Rightarrow> post_request" where
  "upload k a =
     \<lparr>sessionId = k,
      body = [(''ahap'', a), (''mediaUrl'', JStr ''http://media/x.mp4'')],
      protocol = ''http'',
      host = Some ''localhost:3000''\<rparr>"

definition clock_at :: "int \<Rightarrow> clock_reads" where
  "clock_at t = \<lparr>at_created = t, at_expires = t, at_cleanup = t\<rparr>"

definition first_session :: session where
  "first_session = new_session (clock_at 0) (upload ''abc123'' three_events) three_events"

definition one_upload :: store where
  "one_upload = run [Post (clock_at 0) (upload ''abc123'' three_events)] []"

definition second_session :: session where
  "second_session = new_session (clock_at 1000) (upload ''xyz789'' three_events) three_events"

definition two_uploads :: store where
  "two_uploads = run [Post (clock_at 1000) (upload ''xyz789'' three_events)] one_upload"

text \<open>A clock that ticks between the two readings the create handler takes for a record.\<close>

definition ticking_clock :: clock_reads where
  "ticking_clock = \<lparr>at_created = 1000, at_expires = 1001, at_cleanup = 1001\<rparr>"

definition ticking_session :: session where
  "ticking_session = new_session ticking_clock (upload ''abc123'' three_events) three_events"

definition text_pattern :: json where
  "text_pattern = JObj [(''Pattern'', JStr ''abc'')]"

definition no_pattern :: json where
  "no_pattern = JObj [(''Events'', JArr [])]"

definition empty_pattern :: json where
  "empty_pattern = JObj [(''Pattern'', JArr [])]"

definition no_payload :: post_request where
  "no_payload =
     \<lparr>sessionId = ''abc123'', body = [(''mediaUrl'', JStr ''http://media/x.mp4'')],
      protocol = ''http'', host = Some ''localhost:3000''\<rparr>"

definition later_events :: "event list" where
  "later_events =
     [Get ''abc123'', Timer 5000, Page ''abc123'', Health,
      Post (clock_at 6000) (upload ''xyz789'' three_events), Timer 86400000]"

lemmas example_defs =
  first_session_def one_upload_def second_session_def two_uploads_def ticking_clock_def
  ticking_session_def text_pattern_def no_pattern_def empty_pattern_def no_payload_def
  later_events_def

lemmas handler_defs =
  post_haptic_def get_haptic_def get_share_page_def get_health_def new_session_def
  cleanupExpiredSessions_def map_get_def map_size_def own_member_def falsy_def
  header_text_def one_entry_per_key_def three_events_def upload_def clock_at_def

section \<open>The map operations\<close>

lemma map_of_map_set: "map_of (map_set k v s) = (map_of s)(k \<mapsto> v)"
  by (induction s) (auto simp: fun_eq_iff)

lemma map_delete_filter: "map_delete k s = filter (\<lambda>p. fst p \<noteq> k) s"
  by (induction s) auto

lemma keys_map_set: "fst ` set (map_set k v s) = insert k (fst ` set s)"
proof (induction s)
  case Nil
  then show ?case by simp
next
  case (Cons p s)
  obtain k' v' where p: "p = (k', v')" by (cases p)
  show ?case
  proof (cases "k' = k")
    case True
    then show ?thesis unfolding p by simp
  next
    case False
    then show ?thesis unfolding p using Cons.IH by (simp add: insert_commute)
  qed
qed

lemma distinct_map_set: "distinct (map fst s) \<Longrightarrow> distinct (map fst (map_set k v s))"
proof (induction s)
  case Nil
  then show ?case by simp
next
  case (Cons p s)
  obtain k' v' where p: "p = (k', v')" by (cases p)
  show ?case
  proof (cases "k' = k")
    case True
    with Cons.prems p show ?thesis by simp
  next
    case False
    have "k' \<notin> fst ` set (map_set k v s)"
      using Cons.prems p False unfolding keys_map_set by simp
    with Cons p False show ?thesis by simp
  qed
qed

lemma cleanup_loop_filter:
  "cleanup_loop es now s =
     filter (\<lambda>p. \<not> (\<exists>v. (fst p, v) \<in> set es \<and> expires v < now)) s"
proof (induction es arbitrary: s)
  case Nil
  then show ?case by simp
next
  case (Cons e es)
  obtain k v where e: "e = (k, v)" by (cases e)
  show ?case
  proof (cases "expires v < now")
    case True
    then show ?thesis
      unfolding e by (simp add: Cons.IH map_delete_filter) (rule filter_cong, auto)
  next
    case False
    then show ?thesis
      unfolding e by (simp add: Cons.IH) (rule filter_cong, auto)
  qed
qed

section \<open>What the cleanup computes\<close>

lemma cleanup_filter:
  assumes "one_entry_per_key s"
  shows "cleanupExpiredSessions now s = filter (\<lambda>p. \<not> expires (snd p) < now) s"
proof -
  have d: "distinct (map fst s)" using assms by (simp add: one_entry_per_key_def)
  have "(\<exists>v. (fst p, v) \<in> set s \<and> expires v < now) = (expires (snd p) < now)"
    if p: "p \<in> set s" for p
  proof
    assume "\<exists>v. (fst p, v) \<in> set s \<and> expires v < now"
    then obtain v where v: "(fst p, v) \<in> set s" "expires v < now" by blast
    have "(fst p, snd p) \<in> set s" using p by simp
    with v(1) have "v = snd p" by (rule eq_key_imp_eq_value [OF d])
    with v(2) show "expires (snd p) < now" by simp
  next
    assume "expires (snd p) < now"
    moreover have "(fst p, snd p) \<in> set s" using p by simp
    ultimately show "\<exists>v. (fst p, v) \<in> set s \<and> expires v < now" by blast
  qed
  then show ?thesis
    unfolding cleanupExpiredSessions_def cleanup_loop_filter
    by (intro filter_cong refl) simp
qed

lemma cleanup_keeps_one_entry_per_key:
  "one_entry_per_key s \<Longrightarrow> one_entry_per_key (cleanupExpiredSessions now s)"
  by (simp add: cleanupExpiredSessions_def cleanup_loop_filter one_entry_per_key_def distinct_map_filter)

lemma map_of_filter_distinct:
  "distinct (map fst s) \<Longrightarrow>
   map_of (filter P s) k =
     (case map_of s k of None \<Rightarrow> None | Some v \<Rightarrow> if P (k, v) then Some v else None)"
proof (induction s)
  case Nil
  then show ?case by simp
next
  case (Cons p s)
  obtain k' v' where p: "p = (k', v')" by (cases p)
  have notin: "k' \<notin> fst ` set s" using Cons.prems p by simp
  then have none: "map_of s k' = None" by (simp add: map_of_eq_None_iff)
  have "k' \<notin> fst ` set (filter P s)" using notin by auto
  then have none': "map_of (filter P s) k' = None" by (simp add: map_of_eq_None_iff)
  have IH: "map_of (filter P s) k =
     (case map_of s k of None \<Rightarrow> None | Some v \<Rightarrow> if P (k, v) then Some v else None)"
    using Cons by simp
  show ?case
  proof (cases "k = k'")
    case True
    then show ?thesis unfolding p using none none' by simp
  next
    case False
    then show ?thesis unfolding p using IH by simp
  qed
qed

lemma map_get_cleanup:
  "one_entry_per_key s \<Longrightarrow>
   map_get (cleanupExpiredSessions now s) k =
     (case map_get s k of None \<Rightarrow> None
      | Some r \<Rightarrow> if expires r < now then None else Some r)"
  by (simp add: cleanup_filter map_get_def one_entry_per_key_def map_of_filter_distinct
      split: option.splits)

section \<open>Effect of the handlers on the store\<close>

lemma map_of_filter_key:
  "map_of (filter (\<lambda>p. R (fst p)) s) k = (if R k then map_of s k else None)"
  by (induction s) auto

lemma map_get_cleanup_general:
  "map_get (cleanupExpiredSessions now s) k =
     (if \<exists>v. (k, v) \<in> set s \<and> expires v < now then None else map_get s k)"
  unfolding cleanupExpiredSessions_def cleanup_loop_filter map_get_def
  using map_of_filter_key [of "\<lambda>x. \<not> (\<exists>v. (x, v) \<in> set s \<and> expires v < now)" s k]
  by auto

lemma map_get_map_set:
  "map_get (map_set k v s) j = (if j = k then Some v else map_get s j)"
  by (simp add: map_get_def map_of_map_set)

lemma map_set_keeps_one_entry_per_key:
  "one_entry_per_key s \<Longrightarrow> one_entry_per_key (map_set k v s)"
  by (simp add: one_entry_per_key_def distinct_map_set)

lemma post_haptic_rejected:
  "sessionId req = [] \<or> falsy (own_member (body req) ''ahap'') \<Longrightarrow>
   post_haptic c req s = (BadRequest, s)"
  by (auto simp: post_haptic_def falsy_def split: option.splits)

lemma post_haptic_accepted:
  "sessionId req \<noteq> [] \<Longrightarrow> own_member (body req) ''ahap'' = Some a \<Longrightarrow> truthy a \<Longrightarrow>
   post_haptic c req s =
     (Stored (sessionId req) (''haptic://load/'' @ sessionId req)
        (protocol req @ ''://'' @ header_text (host req) @ ''/haptic/'' @ sessionId req),
      cleanupExpiredSessions (at_cleanup c) (map_set (sessionId req) (new_session c req a) s))"
  by (simp add: post_haptic_def)

lemma post_store_cases:
  "snd (post_haptic c req s) = s \<or>
   (\<exists>a. snd (post_haptic c req s) =
      cleanupExpiredSessions (at_cleanup c) (map_set (sessionId req) (new_session c req a) s))"
  by (auto simp: post_haptic_def split: option.splits)

lemma post_keeps_one_entry_per_key:
  "one_entry_per_key s \<Longrightarrow> one_entry_per_key (snd (post_haptic c req s))"
  using post_store_cases [of c req s]
  by (auto simp: cleanup_keeps_one_entry_per_key map_set_keeps_one_entry_per_key)

lemma step_keeps_one_entry_per_key:
  "one_entry_per_key s \<Longrightarrow> one_entry_per_key (step e s)"
  by (cases e) (simp_all add: post_keeps_one_entry_per_key cleanup_keeps_one_entry_per_key)

lemma run_keeps_one_entry_per_key:
  "one_entry_per_key s \<Longrightarrow> one_entry_per_key (run es s)"
  by (induction es arbitrary: s) (simp_all add: step_keeps_one_entry_per_key)

text \<open>Every store the server can reach from its empty start has one entry per key.\<close>

lemma reachable_one_entry_per_key: "one_entry_per_key (run es [])"
  by (rule run_keeps_one_entry_per_key) (simp add: one_entry_per_key_def)

lemma cleanup_same_or_gone:
  "map_get (cleanupExpiredSessions now s) k = None \<or>
   map_get (cleanupExpiredSessions now s) k = map_get s k"
  by (simp add: map_get_cleanup_general)

lemma step_same_or_gone:
  assumes "\<not> writes_key k e"
  shows "map_get (step e s) k = None \<or> map_get (step e s) k = map_get s k"
proof (cases e)
  case (Post c req)
  with assms have ne: "k \<noteq> sessionId req" by auto
  from post_store_cases [of c req s] show ?thesis
  proof
    assume "snd (post_haptic c req s) = s"
    then show ?thesis using Post by simp
  next
    assume "\<exists>a. snd (post_haptic c req s) =
      cleanupExpiredSessions (at_cleanup c) (map_set (sessionId req) (new_session c req a) s)"
    then obtain a where a: "snd (post_haptic c req s) =
      cleanupExpiredSessions (at_cleanup c) (map_set (sessionId req) (new_session c req a) s)"
      by blast
    have "map_get (map_set (sessionId req) (new_session c req a) s) k = map_get s k"
      using ne by (simp add: map_get_map_set)
    with cleanup_same_or_gone [of "at_cleanup c" "map_set (sessionId req) (new_session c req a) s" k]
    show ?thesis using Post a by auto
  qed
next
  case (Timer now)
  then show ?thesis using cleanup_same_or_gone [of now s k] by simp
qed simp_all

lemma run_same_or_gone:
  "no_write_to k es \<Longrightarrow>
   map_get (run es s) k = None \<or> map_get (run es s) k = map_get s k"
proof (induction es arbitrary: s)
  case Nil
  then show ?case by simp
next
  case (Cons e es)
  have e: "\<not> writes_key k e" and es: "no_write_to k es"
    using Cons.prems by simp_all
  from Cons.IH [OF es, of "step e s"] step_same_or_gone [OF e, of s]
  show ?case by auto
qed

lemma get_haptic_not_found: "(get_haptic k s = NotFoundJson) = (map_get s k = None)"
  by (simp add: get_haptic_def split: option.splits)

lemma get_haptic_found: "map_get s k = Some r \<Longrightarrow> get_haptic k s = SessionJson r"
  by (simp add: get_haptic_def)

section \<open>Storing and reading one session\<close>

lemma post_then_map_get:
  assumes "one_entry_per_key s" "sessionId req \<noteq> []"
    "own_member (body req) ''ahap'' = Some p" "truthy p"
    "at_cleanup c \<le> at_expires c + 86400000"
  shows "map_get (snd (post_haptic c req s)) (sessionId req) = Some (new_session c req p)"
proof -
  let ?s1 = "map_set (sessionId req) (new_session c req p) s"
  have inv: "one_entry_per_key ?s1"
    using assms(1) by (rule map_set_keeps_one_entry_per_key)
  have live: "\<not> expires (new_session c req p) < at_cleanup c"
    using assms(5) by (simp add: new_session_def)
  have "map_get (cleanupExpiredSessions (at_cleanup c) ?s1) (sessionId req) =
        Some (new_session c req p)"
    using live by (simp add: map_get_cleanup [OF inv] map_get_map_set)
  then show ?thesis
    by (simp add: post_haptic_accepted [OF assms(2-4)])
qed

lemma prop_length_throws:
  "(prop_length pat = Inl TypeError) = (pat = None \<or> pat = Some JNull)"
  by (cases pat rule: prop_length.cases) simp_all

lemma template_slot_throws:
  "(template_slot len = Inl TypeError) = (\<exists>v. len = Some v \<and> \<not> converts_to_string v)"
  by (cases len) auto

lemma prop_Pattern_value:
  "prop_Pattern (Some a) = (if a = JNull then Inl TypeError else Inr (pattern_of a))"
  by (cases a) simp_all

section \<open>Worked examples\<close>

lemma one_upload_value: "one_upload = [(''abc123'', first_session)]"
  by (simp add: example_defs handler_defs Let_def)

lemma two_uploads_value: "two_uploads = [(''abc123'', first_session), (''xyz789'', second_session)]"
  by (simp add: two_uploads_def one_upload_value)
     (simp add: example_defs handler_defs Let_def)

lemma first_session_expires: "expires first_session = 86400000"
  by (simp add: first_session_def handler_defs)

lemma second_session_expires: "expires second_session = 86401000"
  by (simp add: second_session_def handler_defs)

lemma upload_sessionId: "sessionId (upload k a) = k"
  by (simp add: upload_def)

lemma upload_ahap: "own_member (body (upload k a)) ''ahap'' = Some a"
  by (simp add: upload_def own_member_def)

lemma truthy_three_events: "truthy three_events"
  by (simp add: three_events_def)

section \<open>The claims\<close>

subsection \<open>C1: reading a session whose expiry has passed\<close>

text \<open>
  Claim C1 says that a read of key \<open>k\<close> at time \<open>t\<close> answers 404 whenever the record
  stored under \<open>k\<close> has its expiry at or before \<open>t\<close>, even while the record is still in
  the map. The read handler never looks at the clock or at \<^verbatim>\<open>expires\<close>: it answers from
  what the map holds. A session stored at time 0 expires at 86400000; read at 86400001,
  before any cleanup has run, it is still returned.
\<close>

theorem expired_record_still_returned:
  "map_get one_upload ''abc123'' = Some first_session \<and>
   expires first_session \<le> 86400001 \<and>
   get_haptic ''abc123'' one_upload = SessionJson first_session"
  by (simp add: one_upload_value first_session_expires get_haptic_def map_get_def)

text \<open>
  C1 as the code has it: while a record is stored under \<open>k\<close> a read returns it, whatever
  its expiry; once the cleanup has run at a reading \<open>t\<close> later than the expiry, the read
  answers 404 "Session not found or expired".
\<close>

theorem expired_record_not_found_after_sweep:
  assumes "one_entry_per_key s" "map_get s k = Some r" "expires r < t"
  shows "get_haptic k s = SessionJson r \<and>
         get_haptic k (cleanupExpiredSessions t s) = NotFoundJson"
  using assms by (simp add: get_haptic_found get_haptic_not_found map_get_cleanup)

theorem expired_record_not_found_after_sweep_witness:
  "one_entry_per_key one_upload \<and>
   map_get one_upload ''abc123'' = Some first_session \<and>
   expires first_session < 86400001 \<and>
   get_haptic ''abc123'' one_upload = SessionJson first_session \<and>
   get_haptic ''abc123'' (cleanupExpiredSessions 86400001 one_upload) = NotFoundJson"
proof -
  have h1: "one_entry_per_key one_upload"
    by (simp add: one_upload_value one_entry_per_key_def)
  have h2: "map_get one_upload ''abc123'' = Some first_session"
    by (simp add: one_upload_value map_get_def)
  have h3: "expires first_session < 86400001"
    by (simp add: first_session_expires)
  show ?thesis using h1 h2 h3 expired_record_not_found_after_sweep [OF h1 h2 h3] by simp
qed

subsection \<open>C2: what the cleanup removes\<close>

text \<open>
  Claim C2 says the cleanup removes every record with \<open>expires \<le> now\<close> and keeps every
  record with \<open>expires > now\<close>. The loop tests \<^verbatim>\<open>expires < now\<close>, so a record whose
  expiry equals the reading is kept.
\<close>

theorem sweep_keeps_record_expiring_now:
  "map_get one_upload ''abc123'' = Some first_session \<and>
   expires first_session \<le> 86400000 \<and>
   map_get (cleanupExpiredSessions 86400000 one_upload) ''abc123'' = Some first_session"
  by (simp add: one_upload_value first_session_expires cleanupExpiredSessions_def map_get_def)

text \<open>
  C2 as the code has it: the cleanup at reading \<open>now\<close> removes exactly the records with
  \<open>expires < now\<close>; every record with \<open>now \<le> expires\<close> stays, unchanged and in place, and
  nothing is added.
\<close>

theorem sweep_removes_strictly_expired:
  assumes "one_entry_per_key s"
  shows "cleanupExpiredSessions now s = filter (\<lambda>(k, r). now \<le> expires r) s \<and>
         map_get (cleanupExpiredSessions now s) k =
           (case map_get s k of None \<Rightarrow> None
            | Some r \<Rightarrow> if expires r < now then None else Some r)"
proof -
  have "filter (\<lambda>p. \<not> expires (snd p) < now) s = filter (\<lambda>(k, r). now \<le> expires r) s"
    by (rule filter_cong) auto
  then show ?thesis
    using cleanup_filter [OF assms, of now] map_get_cleanup [OF assms, of now k] by simp
qed

theorem sweep_removes_strictly_expired_witness:
  "one_entry_per_key two_uploads \<and>
   cleanupExpiredSessions 86400500 two_uploads = [(''xyz789'', second_session)] \<and>
   map_get (cleanupExpiredSessions 86400500 two_uploads) ''abc123'' = None"
proof -
  have h1: "one_entry_per_key two_uploads"
    by (simp add: two_uploads_value one_entry_per_key_def)
  show ?thesis
    using h1 sweep_removes_strictly_expired [OF h1, of 86400500 "''abc123''"]
    by (simp add: two_uploads_value first_session_expires second_session_expires map_get_def)
qed

subsection \<open>C3: what a create leaves alone\<close>

text \<open>
  Claim C3 says a create under key \<open>k\<close> leaves every entry under another key present and
  unchanged. The create handler calls the cleanup after storing, so an entry under another
  key whose expiry has passed is removed by the same request.
\<close>

theorem create_removes_other_expired_entry:
  "map_get one_upload ''abc123'' = Some first_session \<and>
   map_get (snd (post_haptic (clock_at 86400001) (upload ''xyz789'' three_events) one_upload))
     ''abc123'' = None"
  by (simp add: one_upload_value first_session_expires map_get_def)
     (simp add: post_haptic_def upload_def three_events_def own_member_def clock_at_def
        cleanupExpiredSessions_def first_session_expires new_session_def Let_def)

text \<open>
  C3 as the code has it: after an accepted create under key \<open>k\<close>, an entry under another
  key \<open>j\<close> is still there and unchanged when its expiry is not before the reading of the
  handler's cleanup, it is gone when its expiry is before that reading, and no entry appears
  under a key that had none.
\<close>

theorem create_frame_up_to_sweep:
  assumes "one_entry_per_key s" "sessionId req \<noteq> []"
    "own_member (body req) ''ahap'' = Some p" "truthy p" "j \<noteq> sessionId req"
  shows "map_get (snd (post_haptic c req s)) j =
     (case map_get s j of None \<Rightarrow> None
      | Some r \<Rightarrow> if expires r < at_cleanup c then None else Some r)"
proof -
  let ?s1 = "map_set (sessionId req) (new_session c req p) s"
  have inv: "one_entry_per_key ?s1"
    using assms(1) by (rule map_set_keeps_one_entry_per_key)
  show ?thesis
    using assms(5)
    by (simp add: post_haptic_accepted [OF assms(2-4)] map_get_cleanup [OF inv] map_get_map_set)
qed

theorem create_frame_up_to_sweep_witness:
  "one_entry_per_key one_upload \<and>
   sessionId (upload ''xyz789'' three_events) \<noteq> [] \<and>
   own_member (body (upload ''xyz789'' three_events)) ''ahap'' = Some three_events \<and>
   truthy three_events \<and>
   ''abc123'' \<noteq> sessionId (upload ''xyz789'' three_events) \<and>
   map_get (snd (post_haptic (clock_at 1000) (upload ''xyz789'' three_events) one_upload))
     ''abc123'' = Some first_session"
proof -
  have h1: "one_entry_per_key one_upload"
    by (simp add: one_upload_value one_entry_per_key_def)
  have h2: "sessionId (upload ''xyz789'' three_events) \<noteq> []"
    by (simp add: upload_def)
  have h3: "own_member (body (upload ''xyz789'' three_events)) ''ahap'' = Some three_events"
    by (simp add: upload_def own_member_def)
  have h4: "truthy three_events"
    by (simp add: three_events_def)
  have h5: "''abc123'' \<noteq> sessionId (upload ''xyz789'' three_events)"
    by (simp add: upload_def)
  have v: "map_get one_upload ''abc123'' = Some first_session"
    by (simp add: one_upload_value map_get_def)
  show ?thesis
    using h1 h2 h3 h4 h5 create_frame_up_to_sweep [OF h1 h2 h3 h4 h5, of "clock_at 1000"]
    by (simp add: v first_session_expires clock_at_def)
qed

subsection \<open>C4: create, then read\<close>

text \<open>
  Claim C4: for a non-empty key and a present payload \<open>p\<close>, a create followed at once by a
  read of the same key succeeds and returns a record whose payload is \<open>p\<close>, as long as
  time has not advanced past the 24 hours in between. The only clock reading that can
  remove the new record before the read is the one of the cleanup inside the create
  handler; "no advance past the TTL" is that this reading is not later than the record's
  expiry.
\<close>

theorem insert_then_lookup:
  assumes "one_entry_per_key s" "sessionId req \<noteq> []"
    "own_member (body req) ''ahap'' = Some p" "truthy p"
    "at_cleanup c \<le> at_expires c + 86400000"
  shows "fst (post_haptic c req s) =
           Stored (sessionId req) (''haptic://load/'' @ sessionId req)
             (protocol req @ ''://'' @ header_text (host req) @ ''/haptic/'' @ sessionId req) \<and>
         get_haptic (sessionId req) (snd (post_haptic c req s)) =
           SessionJson (new_session c req p) \<and>
         ahap (new_session c req p) = p"
  using post_then_map_get [OF assms] post_haptic_accepted [OF assms(2-4), of c s]
  by (simp add: get_haptic_found new_session_def)

theorem insert_then_lookup_witness:
  "one_entry_per_key one_upload \<and>
   sessionId (upload ''xyz789'' three_events) \<noteq> [] \<and>
   own_member (body (upload ''xyz789'' three_events)) ''ahap'' = Some three_events \<and>
   truthy three_events \<and>
   at_cleanup (clock_at 1000) \<le> at_expires (clock_at 1000) + 86400000 \<and>
   get_haptic ''xyz789''
     (snd (post_haptic (clock_at 1000) (upload ''xyz789'' three_events) one_upload)) =
     SessionJson second_session \<and>
   ahap second_session = three_events"
proof -
  have h1: "one_entry_per_key one_upload"
    by (simp add: one_upload_value one_entry_per_key_def)
  have h2: "sessionId (upload ''xyz789'' three_events) \<noteq> []"
    by (simp add: upload_def)
  have h3: "own_member (body (upload ''xyz789'' three_events)) ''ahap'' = Some three_events"
    by (simp add: upload_def own_member_def)
  have h4: "truthy three_events"
    by (simp add: three_events_def)
  have h5: "at_cleanup (clock_at 1000) \<le> at_expires (clock_at 1000) + 86400000"
    by (simp add: clock_at_def)
  have k: "sessionId (upload ''xyz789'' three_events) = ''xyz789''"
    by (simp add: upload_def)
  show ?thesis
    using h1 h2 h3 h4 h5 insert_then_lookup [OF h1 h2 h3 h4 h5]
    by (simp add: k second_session_def)
qed

subsection \<open>C5: a second create under the same key\<close>

text \<open>
  Claim C5: after a create under key \<open>k\<close> with payload \<open>a\<close> and then a create under \<open>k\<close>
  with payload \<open>b\<close>, a read of \<open>k\<close> before expiry returns the record of the second create:
  its payload is \<open>b\<close>, and its media reference and times are those of the second request,
  with nothing merged from the first. This holds whatever the first request was.
\<close>

theorem overwrite_last_write_wins:
  assumes "one_entry_per_key s" "sessionId reqA = k" "sessionId reqB = k" "k \<noteq> []"
    "own_member (body reqB) ''ahap'' = Some b" "truthy b"
    "at_cleanup cB \<le> at_expires cB + 86400000"
  shows "get_haptic k (snd (post_haptic cB reqB (snd (post_haptic cA reqA s)))) =
           SessionJson (new_session cB reqB b) \<and>
         ahap (new_session cB reqB b) = b"
proof -
  have inv: "one_entry_per_key (snd (post_haptic cA reqA s))"
    using assms(1) by (rule post_keeps_one_entry_per_key)
  have ne: "sessionId reqB \<noteq> []" using assms(3,4) by simp
  from post_then_map_get [OF inv ne assms(5,6,7)]
  show ?thesis using assms(3) by (simp add: get_haptic_found new_session_def)
qed

theorem overwrite_last_write_wins_witness:
  "one_entry_per_key [] \<and>
   sessionId (upload ''abc123'' three_events) = ''abc123'' \<and>
   sessionId (upload ''abc123'' empty_pattern) = ''abc123'' \<and>
   own_member (body (upload ''abc123'' empty_pattern)) ''ahap'' = Some empty_pattern \<and>
   truthy empty_pattern \<and>
   at_cleanup (clock_at 1000) \<le> at_expires (clock_at 1000) + 86400000 \<and>
   get_haptic ''abc123''
     (snd (post_haptic (clock_at 1000) (upload ''abc123'' empty_pattern)
        (snd (post_haptic (clock_at 0) (upload ''abc123'' three_events) [])))) =
     SessionJson (new_session (clock_at 1000) (upload ''abc123'' empty_pattern) empty_pattern) \<and>
   ahap (new_session (clock_at 1000) (upload ''abc123'' empty_pattern) empty_pattern) =
     empty_pattern"
proof -
  have h1: "one_entry_per_key []"
    by (simp add: one_entry_per_key_def)
  have h2: "sessionId (upload ''abc123'' three_events) = ''abc123''"
    by (rule upload_sessionId)
  have h3: "sessionId (upload ''abc123'' empty_pattern) = ''abc123''"
    by (rule upload_sessionId)
  have h4: "''abc123'' \<noteq> []"
    by simp
  have h5: "own_member (body (upload ''abc123'' empty_pattern)) ''ahap'' = Some empty_pattern"
    by (rule upload_ahap)
  have h6: "truthy empty_pattern"
    by (simp add: empty_pattern_def)
  have h7: "at_cleanup (clock_at 1000) \<le> at_expires (clock_at 1000) + 86400000"
    by (simp add: clock_at_def)
  show ?thesis
    using h1 h2 h3 h5 h6 h7 overwrite_last_write_wins [OF h1 h2 h3 h4 h5 h6 h7, of "clock_at 0"]
    by simp
qed

subsection \<open>C6: the two times of a record\<close>

text \<open>
  Claim C6 says a record created at time \<open>t0\<close> has \<^verbatim>\<open>created = t0\<close> and
  \<^verbatim>\<open>expires = created + 24 h\<close> exactly. The handler reads the clock once for
  \<^verbatim>\<open>created\<close> and once more for \<^verbatim>\<open>expires\<close>; when the clock ticks between the two
  readings, the difference is 24 hours plus that tick.
\<close>

theorem expires_not_created_plus_ttl:
  "fst (post_haptic ticking_clock (upload ''abc123'' three_events) []) =
     Stored ''abc123'' ''haptic://load/abc123'' ''http://localhost:3000/haptic/abc123'' \<and>
   map_get (snd (post_haptic ticking_clock (upload ''abc123'' three_events) [])) ''abc123'' =
     Some ticking_session \<and>
   created ticking_session = 1000 \<and>
   expires ticking_session = 86401001 \<and>
   expires ticking_session \<noteq> created ticking_session + 86400000"
  by (simp add: ticking_session_def ticking_clock_def handler_defs Let_def)

text \<open>
  C6 as the code has it: the record of an accepted create has as \<^verbatim>\<open>created\<close> the reading
  taken for it and as \<^verbatim>\<open>expires\<close> the next reading plus 86400000 milliseconds (so
  \<^verbatim>\<open>created\<close> plus 24 hours exactly when the two readings agree). Later reads, page
  views, health checks, cleanups and creates under other keys either leave that record as
  it is or, for a cleanup past its expiry, remove it whole: no field of it ever changes.
\<close>

theorem timestamps_from_clock_reads:
  assumes "one_entry_per_key s" "sessionId req \<noteq> []"
    "own_member (body req) ''ahap'' = Some p" "truthy p"
    "at_cleanup c \<le> at_expires c + 86400000"
    "no_write_to (sessionId req) es"
  shows "map_get (snd (post_haptic c req s)) (sessionId req) = Some (new_session c req p) \<and>
         created (new_session c req p) = at_created c \<and>
         expires (new_session c req p) = at_expires c + 86400000 \<and>
         (map_get (run es (snd (post_haptic c req s))) (sessionId req) = Some (new_session c req p) \<or>
          map_get (run es (snd (post_haptic c req s))) (sessionId req) = None)"
  using post_then_map_get [OF assms(1-5)]
    run_same_or_gone [OF assms(6), of "snd (post_haptic c req s)"]
  by (auto simp: new_session_def)

theorem timestamps_from_clock_reads_witness:
  "one_entry_per_key [] \<and>
   sessionId (upload ''abc123'' three_events) \<noteq> [] \<and>
   own_member (body (upload ''abc123'' three_events)) ''ahap'' = Some three_events \<and>
   truthy three_events \<and>
   at_cleanup ticking_clock \<le> at_expires ticking_clock + 86400000 \<and>
   no_write_to (sessionId (upload ''abc123'' three_events)) later_events \<and>
   map_get (snd (post_haptic ticking_clock (upload ''abc123'' three_events) [])) ''abc123'' =
     Some ticking_session \<and>
   created ticking_session = at_created ticking_clock \<and>
   expires ticking_session = at_expires ticking_clock + 86400000 \<and>
   map_get (run later_events (snd (post_haptic ticking_clock (upload ''abc123'' three_events) [])))
     ''abc123'' = Some ticking_session"
proof -
  have h1: "one_entry_per_key []"
    by (simp add: one_entry_per_key_def)
  have h2: "sessionId (upload ''abc123'' three_events) \<noteq> []"
    by (simp add: upload_sessionId)
  have h3: "own_member (body (upload ''abc123'' three_events)) ''ahap'' = Some three_events"
    by (rule upload_ahap)
  have h4: "truthy three_events"
    by (rule truthy_three_events)
  have h5: "at_cleanup ticking_clock \<le> at_expires ticking_clock + 86400000"
    by (simp add: ticking_clock_def)
  have h6: "no_write_to (sessionId (upload ''abc123'' three_events)) later_events"
    by (simp add: later_events_def upload_sessionId)
  have run: "map_get (run later_events
       (snd (post_haptic ticking_clock (upload ''abc123'' three_events) []))) ''abc123'' \<noteq> None"
    by (simp add: later_events_def ticking_clock_def handler_defs Let_def)
  show ?thesis
    using h1 h2 h3 h4 h5 h6 run timestamps_from_clock_reads [OF h1 h2 h3 h4 h5 h6]
    by (auto simp add: upload_sessionId ticking_session_def)
qed

subsection \<open>C7: a create without key or payload\<close>

text \<open>
  Claim C7: a create request whose session key is empty or whose payload is absent is
  answered 400 "Missing required data" and leaves the store, and so its record count, as it
  was. An absent payload is \<^verbatim>\<open>undefined\<close>, one of the falsy values the handler rejects.
\<close>

theorem invalid_create_rejected:
  assumes "sessionId req = [] \<or> falsy (own_member (body req) ''ahap'')"
  shows "post_haptic c req s = (BadRequest, s) \<and>
         map_size (snd (post_haptic c req s)) = map_size s"
  using post_haptic_rejected [OF assms] by simp

theorem invalid_create_rejected_witness:
  "(sessionId (upload [] three_events) = [] \<or>
      falsy (own_member (body (upload [] three_events)) ''ahap'')) \<and>
   post_haptic (clock_at 1000) (upload [] three_events) one_upload = (BadRequest, one_upload) \<and>
   (sessionId no_payload = [] \<or> falsy (own_member (body no_payload) ''ahap'')) \<and>
   post_haptic (clock_at 1000) no_payload one_upload = (BadRequest, one_upload) \<and>
   map_size (snd (post_haptic (clock_at 1000) no_payload one_upload)) = map_size one_upload"
proof -
  have h1: "sessionId (upload [] three_events) = [] \<or>
      falsy (own_member (body (upload [] three_events)) ''ahap'')"
    by (simp add: upload_sessionId)
  have h2: "sessionId no_payload = [] \<or> falsy (own_member (body no_payload) ''ahap'')"
    by (simp add: no_payload_def own_member_def falsy_def)
  show ?thesis
    using h1 h2
      invalid_create_rejected [OF h1, of "clock_at 1000" one_upload]
      invalid_create_rejected [OF h2, of "clock_at 1000" one_upload]
    by simp
qed

subsection \<open>C8: not found stays not found\<close>

text \<open>
  Claim C8: once a read of \<open>k\<close> answers 404, every later read of \<open>k\<close> answers 404 too,
  whatever happens in between, as long as no create under \<open>k\<close> does.
\<close>

theorem expiry_monotone:
  assumes "get_haptic k s = NotFoundJson"
    and "no_write_to k es"
  shows "get_haptic k (run es s) = NotFoundJson"
  using assms run_same_or_gone [of k es s] by (auto simp: get_haptic_not_found)

theorem expiry_monotone_witness:
  "get_haptic ''abc123'' (cleanupExpiredSessions 86400001 one_upload) = NotFoundJson \<and>
   no_write_to ''abc123'' later_events \<and>
   get_haptic ''abc123'' (run later_events (cleanupExpiredSessions 86400001 one_upload)) =
     NotFoundJson"
proof -
  have h1: "get_haptic ''abc123'' (cleanupExpiredSessions 86400001 one_upload) = NotFoundJson"
    by (simp add: one_upload_value first_session_expires cleanupExpiredSessions_def
        get_haptic_def map_get_def)
  have h2: "no_write_to ''abc123'' later_events"
    by (simp add: later_events_def upload_sessionId)
  show ?thesis using h1 h2 expiry_monotone [OF h1 h2] by simp
qed

subsection \<open>C9: running the cleanup twice\<close>

text \<open>
  Claim C9: a second cleanup at the same clock reading, with nothing stored in between,
  leaves the store as the first cleanup left it.
\<close>

theorem sweep_idempotent:
  "cleanupExpiredSessions now (cleanupExpiredSessions now s) = cleanupExpiredSessions now s"
proof -
  let ?Q = "\<lambda>t p. \<not> (\<exists>v. (fst p, v) \<in> set t \<and> expires v < now)"
  let ?s' = "filter (?Q s) s"
  have "filter (?Q ?s') ?s' = ?s'"
    by (rule filter_True) auto
  then show ?thesis
    by (simp add: cleanupExpiredSessions_def cleanup_loop_filter)
qed

subsection \<open>C10: the share page and the shape of the payload\<close>

text \<open>
  Claim C10 says the share page fails for every stored record whose payload lacks a
  \<^verbatim>\<open>Pattern\<close> array. A \<^verbatim>\<open>Pattern\<close> that is a string has a \<^verbatim>\<open>length\<close> as well, and the
  page is produced with the number of its characters as the event count.
\<close>

theorem share_page_renders_without_pattern_array:
  "map_get (run [Post (clock_at 0) (upload ''abc123'' text_pattern)] []) ''abc123'' =
     Some (new_session (clock_at 0) (upload ''abc123'' text_pattern) text_pattern) \<and>
   pattern_of text_pattern = Some (JStr ''abc'') \<and>
   get_share_page ''abc123'' (run [Post (clock_at 0) (upload ''abc123'' text_pattern)] []) =
     Inr (SharePage \<lparr>page_sessionId = ''abc123'', page_events = Some (JNum (Finite 3)),
                     page_created = 0\<rparr>)"
  by (simp add: text_pattern_def handler_defs Let_def)

text \<open>
  C10 as the code has it: for a stored record the share page fails with a
  \<^verbatim>\<open>TypeError\<close> exactly when the payload has no \<^verbatim>\<open>Pattern\<close> member (every payload that
  is not an object is such a one), or that member is \<^verbatim>\<open>null\<close>, or that member is an
  object whose own \<^verbatim>\<open>length\<close> member cannot be converted to a string. For every other
  payload the page is produced.
\<close>

theorem share_page_type_error_iff:
  assumes "map_get s k = Some r"
  shows "(get_share_page k s = Inl TypeError) =
         (pattern_of (ahap r) = None \<or> pattern_of (ahap r) = Some JNull \<or>
          (\<exists>m v. pattern_of (ahap r) = Some (JObj m) \<and> own_member m ''length'' = Some v \<and>
                 \<not> converts_to_string v))"
proof (cases "ahap r = JNull")
  case True
  then show ?thesis using assms by (simp add: get_share_page_def)
next
  case False
  show ?thesis
  proof (cases "pattern_of (ahap r)")
    case None
    then show ?thesis using assms False
      by (simp add: get_share_page_def prop_Pattern_value)
  next
    case (Some pat)
    then show ?thesis using assms False
      by (cases pat)
        (auto simp: get_share_page_def prop_Pattern_value template_slot_throws
           split: option.splits sum.splits if_splits)
  qed
qed

theorem share_page_type_error_iff_witness:
  "map_get (run [Post (clock_at 0) (upload ''abc123'' no_pattern)] []) ''abc123'' =
     Some (new_session (clock_at 0) (upload ''abc123'' no_pattern) no_pattern) \<and>
   pattern_of (ahap (new_session (clock_at 0) (upload ''abc123'' no_pattern) no_pattern)) = None \<and>
   get_share_page ''abc123'' (run [Post (clock_at 0) (upload ''abc123'' no_pattern)] []) =
     Inl TypeError"
proof -
  have h1: "map_get (run [Post (clock_at 0) (upload ''abc123'' no_pattern)] []) ''abc123'' =
     Some (new_session (clock_at 0) (upload ''abc123'' no_pattern) no_pattern)"
    by (simp add: no_pattern_def handler_defs Let_def)
  have h2: "pattern_of (ahap (new_session (clock_at 0) (upload ''abc123'' no_pattern) no_pattern)) = None"
    by (simp add: no_pattern_def new_session_def own_member_def)
  show ?thesis using h1 h2 share_page_type_error_iff [OF h1] by simp
qed

end
